theory Spec2Isabelle
  imports Main "HOL-Library.Word" "HOL-Library.Sublist"
begin

section \<open>JavaScript strings\<close>

text \<open>
  A JavaScript string is a sequence of UTF-16 code units. String literals of the source
  are ASCII; \<open>js\<close> embeds them.
\<close>

type_synonym cu = "16 word"
type_synonym jsstring = "cu list"

definition js :: "string \<Rightarrow> jsstring" where
  "js s = map (\<lambda>c. of_nat (of_char c)) s"

text \<open>ECMAScript \<open>LineTerminator\<close>: LF, CR, U+2028, U+2029.\<close>

definition is_line_terminator :: "cu \<Rightarrow> bool" where
  "is_line_terminator c \<longleftrightarrow> c = 0x0A \<or> c = 0x0D \<or> c = 0x2028 \<or> c = 0x2029"

text \<open>
  The class \<open>\s\<close> of a regular expression, which is also what \<open>String.prototype.trim\<close>
  removes: \<open>WhiteSpace\<close> (TAB, VT, FF, U+FEFF and the space separators) and
  \<open>LineTerminator\<close>.
\<close>

definition is_white_space :: "cu \<Rightarrow> bool" where
  "is_white_space c \<longleftrightarrow>
     c = 0x09 \<or> c = 0x0B \<or> c = 0x0C \<or> c = 0x20 \<or> c = 0xA0 \<or> c = 0x1680 \<or>
     (0x2000 \<le> c \<and> c \<le> 0x200A) \<or> c = 0x202F \<or> c = 0x205F \<or> c = 0x3000 \<or>
     c = 0xFEFF \<or> is_line_terminator c"

text \<open>
  Matching a pattern letter under the \<open>i\<close> flag (without \<open>u\<close>): both code units are
  canonicalized by upper-casing, and a code unit from 128 on never canonicalizes to one
  below 128. For the ASCII letters of the patterns here, only the letter itself in
  either case matches.
\<close>

definition ci_eq :: "cu \<Rightarrow> cu \<Rightarrow> bool" where
  "ci_eq p c \<longleftrightarrow>
     c = p \<or> (0x41 \<le> p \<and> p \<le> 0x5A \<and> c = p + 0x20) \<or> (0x61 \<le> p \<and> p \<le> 0x7A \<and> c = p - 0x20)"

fun ci_prefix :: "jsstring \<Rightarrow> jsstring \<Rightarrow> bool" where
  "ci_prefix [] s = True"
| "ci_prefix (p # ps) [] = False"
| "ci_prefix (p # ps) (c # cs) = (ci_eq p c \<and> ci_prefix ps cs)"

section \<open>String.prototype.replace with a regular expression\<close>

text \<open>
  A regular expression is modelled by what it matches at one position: given the code
  unit before the position (\<open>None\<close> at the start of the input) and the rest of the input
  from the position on, the length of the match there, or \<open>None\<close>.
\<close>

type_synonym matcher = "cu option \<Rightarrow> jsstring \<Rightarrow> nat option"

text \<open>
  With the \<open>g\<close> flag every match is replaced, scanning from the left; the scan goes on
  behind a match, and one code unit further after an empty match.
\<close>

fun replace_global :: "matcher \<Rightarrow> (jsstring \<Rightarrow> jsstring) \<Rightarrow> cu option \<Rightarrow> jsstring \<Rightarrow> jsstring" where
  "replace_global m r prev [] = (case m prev [] of None \<Rightarrow> [] | Some _ \<Rightarrow> r [])"
| "replace_global m r prev (c # cs) =
     (case m prev (c # cs) of
        None \<Rightarrow> c # replace_global m r (Some c) cs
      | Some 0 \<Rightarrow> r [] @ c # replace_global m r (Some c) cs
      | Some (Suc n) \<Rightarrow>
          r (take (Suc n) (c # cs)) @
          replace_global m r (Some (last (take (Suc n) (c # cs)))) (drop n cs))"

text \<open>Without the \<open>g\<close> flag only the first match is replaced.\<close>

fun replace_first :: "matcher \<Rightarrow> (jsstring \<Rightarrow> jsstring) \<Rightarrow> cu option \<Rightarrow> jsstring \<Rightarrow> jsstring" where
  "replace_first m r prev [] = (case m prev [] of None \<Rightarrow> [] | Some _ \<Rightarrow> r [])"
| "replace_first m r prev (c # cs) =
     (case m prev (c # cs) of
        None \<Rightarrow> c # replace_first m r (Some c) cs
      | Some n \<Rightarrow> r (take n (c # cs)) @ drop n (c # cs))"

text \<open>\<open>^\<close> under the \<open>m\<close> flag: the start of the input or behind a line terminator.\<close>

definition at_line_start :: "cu option \<Rightarrow> bool" where
  "at_line_start prev = (case prev of None \<Rightarrow> True | Some c \<Rightarrow> is_line_terminator c)"

section \<open>The regular expressions of sanitizeSqlQuery\<close>

text \<open>\<^verbatim>\<open>/```sql/gi\<close>\<close>

definition re_fence_sql :: matcher where
  "re_fence_sql prev s = (if ci_prefix (js ''```sql'') s then Some 6 else None)"

text \<open>\<^verbatim>\<open>/```/g\<close>\<close>

definition re_fence :: matcher where
  "re_fence prev s = (if prefix (js ''```'') s then Some 3 else None)"

text \<open>
  \<^verbatim>\<open>/--.*$/gm\<close>: \<open>.\<close> matches anything but a line terminator, the star is greedy,
  and \<open>$\<close> under the \<open>m\<close> flag holds at the end of the input and before a line
  terminator: the match runs from \<open>--\<close> to the end of the line.
\<close>

definition re_comment :: matcher where
  "re_comment prev s =
     (if prefix (js ''--'') s
      then Some (2 + length (takeWhile (\<lambda>c. \<not> is_line_terminator c) (drop 2 s)))
      else None)"

text \<open>
  \<^verbatim>\<open>\s*[\r\n]\<close>: the greedy star takes a white space code unit and tries the rest; when
  that fails it gives the code unit back, which then has to be CR or LF.
\<close>

fun ws_newline :: "jsstring \<Rightarrow> nat option" where
  "ws_newline [] = None"
| "ws_newline (c # cs) =
     (if is_white_space c
      then (case ws_newline cs of
              Some n \<Rightarrow> Some (Suc n)
            | None \<Rightarrow> if c = 0x0D \<or> c = 0x0A then Some 1 else None)
      else None)"

text \<open>\<^verbatim>\<open>/^\s*[\r\n]/gm\<close>\<close>

definition re_blank_line :: matcher where
  "re_blank_line prev s = (if at_line_start prev then ws_newline s else None)"

text \<open>\<^verbatim>\<open>SELECT\s\<close> under the \<open>i\<close> flag, at the start of \<open>s\<close>.\<close>

definition select_ws :: "jsstring \<Rightarrow> bool" where
  "select_ws s \<longleftrightarrow>
     ci_prefix (js ''SELECT'') s \<and> (case drop 6 s of [] \<Rightarrow> False | c # _ \<Rightarrow> is_white_space c)"

text \<open>
  \<^verbatim>\<open>/^(?!SELECT\s)/i\<close>: without the \<open>m\<close> flag \<open>^\<close> holds at the start of the input
  only; the match is empty.
\<close>

definition re_not_select :: matcher where
  "re_not_select prev s = (if prev = None \<and> \<not> select_ws s then Some 0 else None)"

text \<open>
  \<^verbatim>\<open>/;[\s\S]*$/\<close>: the class takes every code unit and \<open>$\<close> without the \<open>m\<close> flag
  holds at the end of the input only: the match runs from \<open>;\<close> to the end.
\<close>

definition re_semicolon_rest :: matcher where
  "re_semicolon_rest prev s =
     (case s of [] \<Rightarrow> None | c # cs \<Rightarrow> if c = 0x3B then Some (length s) else None)"

text \<open>\<^verbatim>\<open>/[^;]$/\<close>: the last code unit of the input, when it is not \<open>;\<close>.\<close>

definition re_last_not_semicolon :: matcher where
  "re_last_not_semicolon prev s =
     (case s of [c] \<Rightarrow> if c \<noteq> 0x3B then Some 1 else None | _ \<Rightarrow> None)"

text \<open>\<open>String.prototype.trim\<close>\<close>

definition js_trim :: "jsstring \<Rightarrow> jsstring" where
  "js_trim s = rev (dropWhile is_white_space (rev (dropWhile is_white_space s)))"

section \<open>sanitizeSqlQuery\<close>

definition strip_sql_fences :: "jsstring \<Rightarrow> jsstring" where
  "strip_sql_fences s = replace_global re_fence_sql (\<lambda>_. []) None s"

definition strip_fences :: "jsstring \<Rightarrow> jsstring" where
  "strip_fences s = replace_global re_fence (\<lambda>_. []) None s"

definition strip_comments :: "jsstring \<Rightarrow> jsstring" where
  "strip_comments s = replace_global re_comment (\<lambda>_. []) None s"

definition strip_blank_lines :: "jsstring \<Rightarrow> jsstring" where
  "strip_blank_lines s = replace_global re_blank_line (\<lambda>_. []) None s"

definition coerce_select :: "jsstring \<Rightarrow> jsstring" where
  "coerce_select s = replace_first re_not_select (\<lambda>_. js ''SELECT '') None s"

definition truncate_at_semicolon :: "jsstring \<Rightarrow> jsstring" where
  "truncate_at_semicolon s = replace_first re_semicolon_rest (\<lambda>_. js '';'') None s"

definition ensure_semicolon :: "jsstring \<Rightarrow> jsstring" where
  "ensure_semicolon s = replace_first re_last_not_semicolon (\<lambda>match. match @ js '';'') None s"

definition sanitizeSqlQuery :: "jsstring \<Rightarrow> jsstring" where
  "sanitizeSqlQuery query =
     js_trim (ensure_semicolon (truncate_at_semicolon (coerce_select
       (strip_blank_lines (strip_comments (strip_fences (strip_sql_fences query)))))))"

section \<open>The action\<close>

text \<open>
  The input parameters of the action. Each value is a string; the parameters declared
  \<open>required: false\<close> may be absent.
\<close>

record input =
  openaiApiKey :: jsstring
  host :: jsstring
  port :: "jsstring option"
  sslCert :: jsstring
  user :: jsstring
  password :: jsstring
  database :: jsstring
  schema :: "jsstring option"
  instructions :: "jsstring option"
  maxRows :: "jsstring option"
  question :: jsstring

record output_object =
  response :: jsstring

text \<open>\<open>x || d\<close> on an optional string: \<open>undefined\<close> and the empty string are falsy.\<close>

definition or_default :: "jsstring option \<Rightarrow> jsstring \<Rightarrow> jsstring" where
  "or_default x d = (case x of None \<Rightarrow> d | Some v \<Rightarrow> if v = [] then d else v)"

text \<open>A thrown value, by its message.\<close>

datatype exn = Error jsstring

text \<open>The argument of \<open>mysql.createConnection\<close>; \<open>'n\<close> is the type of JavaScript numbers.\<close>

record 'n connection_options =
  opt_host :: jsstring
  opt_port :: 'n
  opt_user :: jsstring
  opt_password :: jsstring
  opt_database :: jsstring
  opt_ssl_ca :: jsstring
  opt_ssl_rejectUnauthorized :: bool

text \<open>The argument of \<open>ai.chat.completions.create\<close>, with the key the client was made with.\<close>

datatype role = System | User

record chat_request =
  apiKey :: jsstring
  model :: jsstring
  messages :: "(role \<times> jsstring) list"
  temperature :: nat

text \<open>
  The collaborators of the action, none of which is code of this repository: the
  built-in \<open>parseInt\<close> and \<open>JSON.stringify\<close>, the MySQL client and the completion API.
  A call either throws (\<open>Inl\<close>, or \<open>Some\<close> where nothing is returned) or returns. The
  completion returns \<open>choices[0]?.message?.content\<close>, \<open>None\<close> when it is absent.
\<close>

record ('n, 'rows) world =
  parseInt :: "jsstring \<Rightarrow> 'n"
  JSON_stringify :: "'rows \<Rightarrow> jsstring"
  createConnection :: "'n connection_options \<Rightarrow> exn option"
  connection_query :: "jsstring \<Rightarrow> exn + 'rows"
  connection_end :: "exn option"
  completions_create :: "chat_request \<Rightarrow> exn + jsstring option"

text \<open>What a run does to the outside, in order.\<close>

datatype 'n event =
  CreateConnection "'n connection_options"
| CompletionsCreate chat_request
| ConnectionQuery jsstring
| ConnectionEnd

text \<open>The system message of generateSqlQuery, a template literal over \<open>schemaInfo\<close>.\<close>

definition system_content :: "jsstring \<Rightarrow> jsstring" where
  \<open>system_content schemaInfo =
     js ''You are a MySQL expert. Generate secure, read-only SQL queries based on natural language questions.'' @ [0x0A] @
     js ''        '' @ (if schemaInfo \<noteq> js ''[]'' then js ''Schema information: '' @ schemaInfo else []) @ [0x0A] @
     js ''        '' @ [0x0A] @
     js ''        Important: '' @ [0x0A] @
     js ''        - Return ONLY the raw SQL query without any formatting, markdown, or code blocks'' @ [0x0A] @
     js ''        - NEVER assume column names exist'' @ [0x0A] @
     js ''        - When no schema is provided or when asked for "all fields", use "SELECT *"'' @ [0x0A] @
     js ''        - Do not invent or guess column names based on table names'' @ [0x0A] @
     js ''        '' @ [0x0A] @
     js ''        Rules:'' @ [0x0A] @
     js ''        - Generate only SELECT queries (no INSERT, UPDATE, DELETE, etc.)'' @ [0x0A] @
     js ''        - For random selection, use "ORDER BY RAND()"'' @ [0x0A] @
     js ''        - Include relevant JOINs only if table relationships are explicitly provided'' @ [0x0A] @
     js ''        - Add inline comments with -- to explain the query'' @ [0x0A] @
     js ''        - Limit results using LIMIT clause''\<close>

definition completion_request :: "jsstring \<Rightarrow> jsstring \<Rightarrow> jsstring \<Rightarrow> 'n \<Rightarrow> chat_request" where
  "completion_request key schemaInfo q maxRows_n =
     \<lparr>apiKey = key, model = js ''gpt-4'',
      messages = [(System, system_content schemaInfo), (User, q)],
      temperature = 0\<rparr>"

definition GenerationFailure :: exn where
  "GenerationFailure = Error (js ''Failed to generate SQL query: No response from OpenAI'')"

text \<open>
  generateSqlQuery: the completion is requested, its content trimmed, and an absent or
  empty result is thrown as an error. The function returns the events next to the result.
\<close>

definition generateSqlQuery ::
  "('n, 'rows) world \<Rightarrow> jsstring \<Rightarrow> jsstring \<Rightarrow> jsstring \<Rightarrow> 'n \<Rightarrow> 'n event list \<times> (exn + jsstring)" where
  "generateSqlQuery w key schemaInfo q maxRows_n =
     (let req = completion_request key schemaInfo q maxRows_n in
      ([CompletionsCreate req],
       case completions_create w req of
         Inl e \<Rightarrow> Inl e
       | Inr content \<Rightarrow>
           (case map_option js_trim content of
              None \<Rightarrow> Inl GenerationFailure
            | Some sqlQuery \<Rightarrow> if sqlQuery = [] then Inl GenerationFailure else Inr sqlQuery)))"

definition formatResponse :: "('n, 'rows) world \<Rightarrow> 'rows \<Rightarrow> jsstring option \<Rightarrow> output_object" where
  "formatResponse w rows instr =
     (let r = JSON_stringify w rows in
      \<lparr>response =
         (case instr of
            None \<Rightarrow> r
          | Some i \<Rightarrow>
              if i = [] then r
              else js ''Instructions for the following content: '' @ i @ [0x0A, 0x0A] @ r)\<rparr>)"

definition query_failed :: "exn \<Rightarrow> exn" where
  \<open>query_failed queryError =
     (case queryError of
        Error errorMessage \<Rightarrow>
          Error (js ''Query failed. Please ensure your question uses existing table and column names. If possible, provide the database schema in the 'schema' parameter. Error: '' @ errorMessage))\<close>

text \<open>The options handler passes to \<open>mysql.createConnection\<close>.\<close>

definition connection_options :: "('n, 'rows) world \<Rightarrow> input \<Rightarrow> 'n connection_options" where
  "connection_options w inp =
     \<lparr>opt_host = host inp,
      opt_port = parseInt w (or_default (port inp) (js ''3306'')),
      opt_user = user inp,
      opt_password = password inp,
      opt_database = database inp,
      opt_ssl_ca = sslCert inp,
      opt_ssl_rejectUnauthorized = False\<rparr>"

text \<open>
  handler: the connection is created first; the body runs inside \<open>try\<close>, and
  \<open>finally\<close> ends the connection on every path, an error of which replaces the
  body's outcome.
\<close>

definition handler :: "('n, 'rows) world \<Rightarrow> input \<Rightarrow> 'n event list \<times> (exn + output_object)" where
  "handler w inp =
     (let opts = connection_options w inp
      in case createConnection w opts of
           Some e \<Rightarrow> ([CreateConnection opts], Inl e)
         | None \<Rightarrow>
             (let maxRows_n = parseInt w (or_default (maxRows inp) (js ''100''));
                  schemaInfo = or_default (schema inp) (js ''[]'');
                  (t1, r1) = generateSqlQuery w (openaiApiKey inp) schemaInfo (question inp) maxRows_n;
                  (t2, r2) =
                    (case r1 of
                       Inl e \<Rightarrow> ([], Inl e)
                     | Inr sqlQuery \<Rightarrow>
                         (let sanitizedQuery = sanitizeSqlQuery sqlQuery in
                          ([ConnectionQuery sanitizedQuery],
                           case connection_query w sanitizedQuery of
                             Inl queryError \<Rightarrow> Inl (query_failed queryError)
                           | Inr rows \<Rightarrow> Inr (formatResponse w rows (instructions inp)))));
                  t = CreateConnection opts # t1 @ t2 @ [ConnectionEnd]
              in case connection_end w of
                   Some e \<Rightarrow> (t, Inl e)
                 | None \<Rightarrow> (t, r2)))"

section \<open>A run to evaluate\<close>

text \<open>
  A world in which the connection opens and closes, and the completion comes back
  without content; numbers are read as \<open>nat\<close> by a stand-in for \<open>parseInt\<close>.
\<close>

definition silent_world :: "(nat, unit) world" where
  "silent_world =
     \<lparr>parseInt = (\<lambda>s. if s = js ''3306'' then 3306 else if s = js ''100'' then 100 else 0),
      JSON_stringify = (\<lambda>_. js ''[]''),
      createConnection = (\<lambda>_. None),
      connection_query = (\<lambda>_. Inr ()),
      connection_end = None,
      completions_create = (\<lambda>_. Inr None)\<rparr>"

definition sample_input :: input where
  "sample_input =
     \<lparr>openaiApiKey = js ''key'', host = js ''localhost'', port = None, sslCert = js ''cert'',
      user = js ''reader'', password = js ''secret'', database = js ''shop'', schema = None,
      instructions = None, maxRows = None, question = js ''How many users are there?''\<rparr>"

section \<open>Helpers of the proofs\<close>

text \<open>No position of \<open>s\<close> has a match of \<open>m\<close>.\<close>

fun no_match :: "matcher \<Rightarrow> cu option \<Rightarrow> jsstring \<Rightarrow> bool" where
  "no_match m prev [] = (m prev [] = None)"
| "no_match m prev (c # cs) = (m prev (c # cs) = None \<and> no_match m (Some c) cs)"

text \<open>No run of the code unit \<open>d\<close> in \<open>s\<close> has \<open>k\<close> or more elements.\<close>

fun run_free :: "cu \<Rightarrow> nat \<Rightarrow> jsstring \<Rightarrow> bool" where
  "run_free d k [] = True"
| "run_free d k (c # cs) = (length (takeWhile (\<lambda>x. x = d) (c # cs)) < k \<and> run_free d k cs)"

section \<open>Strings without a match\<close>

lemma replace_global_no_match: "no_match m prev s \<Longrightarrow> replace_global m r prev s = s"
  by (induction s arbitrary: prev) auto

lemma replace_first_no_match: "no_match m prev s \<Longrightarrow> replace_first m r prev s = s"
  by (induction s arbitrary: prev) auto

lemma js_fence: "js ''```'' = [0x60, 0x60, 0x60]"
  by (simp add: js_def)

lemma js_dashes: "js ''--'' = [0x2D, 0x2D]"
  by (simp add: js_def)

lemma prefix_fence_iff:
  "prefix (js ''```'') s \<longleftrightarrow> 3 \<le> length (takeWhile (\<lambda>x. x = 0x60) s)"
proof (cases s)
  case Nil then show ?thesis by (simp add: js_fence)
next
  case (Cons a t)
  show ?thesis
  proof (cases t)
    case Nil then show ?thesis using Cons by (simp add: js_fence)
  next
    case (Cons b u)
    then show ?thesis using \<open>s = a # t\<close> by (cases u) (auto simp: js_fence)
  qed
qed

lemma prefix_dashes_iff:
  "prefix (js ''--'') s \<longleftrightarrow> 2 \<le> length (takeWhile (\<lambda>x. x = 0x2D) s)"
proof (cases s)
  case Nil then show ?thesis by (simp add: js_dashes)
next
  case (Cons a t)
  then show ?thesis by (cases t) (auto simp: js_dashes)
qed

lemma re_fence_None_iff: "re_fence p s = None \<longleftrightarrow> length (takeWhile (\<lambda>x. x = 0x60) s) < 3"
  by (simp add: re_fence_def prefix_fence_iff not_le)

lemma re_comment_None_iff: "re_comment p s = None \<longleftrightarrow> length (takeWhile (\<lambda>x. x = 0x2D) s) < 2"
  by (simp add: re_comment_def prefix_dashes_iff not_le)

lemma no_match_fence_iff: "no_match re_fence p s \<longleftrightarrow> run_free 0x60 3 s"
  by (induction s arbitrary: p) (simp_all add: re_fence_None_iff del: takeWhile.simps(2))

lemma no_match_comment_iff: "no_match re_comment p s \<longleftrightarrow> run_free 0x2D 2 s"
  by (induction s arbitrary: p) (simp_all add: re_comment_None_iff del: takeWhile.simps(2))

lemma ci_prefix_fence_sql: "ci_prefix (js ''```sql'') s \<Longrightarrow> prefix (js ''```'') s"
  by (cases s; cases "tl s"; cases "tl (tl s)") (auto simp: js_def ci_eq_def)

lemma no_match_fence_sql: "run_free 0x60 3 s \<Longrightarrow> no_match re_fence_sql p s"
proof (induction s arbitrary: p)
  case Nil
  then show ?case by (simp add: re_fence_sql_def js_def)
next
  case (Cons c cs)
  have "\<not> prefix (js ''```'') (c # cs)"
    using Cons.prems by (simp add: prefix_fence_iff del: takeWhile.simps)
  then have "re_fence_sql p (c # cs) = None"
    using ci_prefix_fence_sql [of "c # cs"] by (auto simp: re_fence_sql_def)
  then show ?case using Cons by simp
qed

lemma run_free_drop: "run_free d k s \<Longrightarrow> run_free d k (drop n s)"
proof (induction s arbitrary: n)
  case Nil then show ?case by simp
next
  case (Cons c cs) then show ?case by (cases n) simp_all
qed

lemma run_free_dropWhile: "run_free d k s \<Longrightarrow> run_free d k (dropWhile P s)"
  by (simp add: dropWhile_eq_drop run_free_drop)

section \<open>Stripping the fences\<close>

lemma fence_step:
  "replace_global re_fence (\<lambda>_. []) p (c # cs) =
     (if prefix (js ''```'') (c # cs)
      then replace_global re_fence (\<lambda>_. []) (Some 0x60) (drop 2 cs)
      else c # replace_global re_fence (\<lambda>_. []) (Some c) cs)"
proof (cases "prefix (js ''```'') (c # cs)")
  case True
  then obtain t where "c # cs = [0x60, 0x60, 0x60] @ t"
    by (auto simp: js_fence prefix_def)
  then show ?thesis using True by (simp add: re_fence_def)
next
  case False
  then show ?thesis by (simp add: re_fence_def)
qed

lemma fence_lead:
  "length (takeWhile (\<lambda>x. x = 0x60) (replace_global re_fence (\<lambda>_. []) p s)) =
   length (takeWhile (\<lambda>x. x = 0x60) s) mod 3"
proof (induction "length s" arbitrary: s p rule: less_induct)
  case less
  show ?case
  proof (cases s)
    case Nil
    then show ?thesis by (simp add: re_fence_def js_fence)
  next
    case (Cons c cs)
    show ?thesis
    proof (cases "prefix (js ''```'') (c # cs)")
      case True
      then obtain t where t: "c # cs = [0x60, 0x60, 0x60] @ t"
        by (auto simp: js_fence prefix_def)
      then have "length t < length s" using Cons by simp
      from less [OF this] show ?thesis
        using t True Cons by (simp add: fence_step del: replace_global.simps)
    next
      case False
      then have small: "length (takeWhile (\<lambda>x. x = 0x60) (c # cs)) < 3"
        by (simp add: prefix_fence_iff not_le del: takeWhile.simps)
      have "length cs < length s" using Cons by simp
      from less [OF this, of "Some c"] show ?thesis
        using False small Cons
        by (simp add: fence_step del: replace_global.simps split: if_splits)
    qed
  qed
qed

lemma strip_fences_run_free: "run_free 0x60 3 (replace_global re_fence (\<lambda>_. []) p s)"
proof (induction "length s" arbitrary: s p rule: less_induct)
  case less
  show ?case
  proof (cases s)
    case Nil
    then show ?thesis by (simp add: re_fence_def js_fence)
  next
    case (Cons c cs)
    show ?thesis
    proof (cases "prefix (js ''```'') (c # cs)")
      case True
      have "length (drop 2 cs) < length s" using Cons by simp
      from less [OF this] show ?thesis
        using True Cons by (simp add: fence_step del: replace_global.simps)
    next
      case False
      have "length cs < length s" using Cons by simp
      from less [OF this, of "Some c"]
      have rest: "run_free 0x60 3 (replace_global re_fence (\<lambda>_. []) (Some c) cs)" .
      have "length (takeWhile (\<lambda>x. x = 0x60) (replace_global re_fence (\<lambda>_. []) p (c # cs))) < 3"
        by (simp only: fence_lead)
      then show ?thesis
        using False rest Cons by (simp add: fence_step del: replace_global.simps takeWhile.simps(2))
    qed
  qed
qed

section \<open>Stripping the comments\<close>

lemma replace_global_prev:
  assumes "\<And>p q t. m p t = m q t"
  shows "replace_global m r p s = replace_global m r q s"
  using assms [of p s q] by (cases s) simp_all

lemma comment_prev:
  "replace_global re_comment r p s = replace_global re_comment r None s"
  by (rule replace_global_prev) (simp add: re_comment_def)

lemma comment_match:
  assumes "prefix (js ''--'') s"
  shows "replace_global re_comment (\<lambda>_. []) p s =
         replace_global re_comment (\<lambda>_. []) None
           (dropWhile (\<lambda>x. \<not> is_line_terminator x) (drop 2 s))"
proof -
  from assms obtain t where t: "s = 0x2D # 0x2D # t"
    by (auto simp: js_dashes prefix_def)
  have "re_comment p s = Some (Suc (Suc (length (takeWhile (\<lambda>x. \<not> is_line_terminator x) t))))"
    using assms t by (simp add: re_comment_def)
  then show ?thesis
    using t by (simp add: dropWhile_eq_drop comment_prev [of _ "Some _"])
qed

lemma comment_skip:
  assumes "\<not> prefix (js ''--'') (c # cs)"
  shows "replace_global re_comment (\<lambda>_. []) p (c # cs) =
         c # replace_global re_comment (\<lambda>_. []) None cs"
  using assms by (simp add: re_comment_def comment_prev [of _ "Some _"])

lemma comment_Nil: "replace_global re_comment (\<lambda>_. []) p [] = []"
  by (simp add: re_comment_def js_dashes)

declare replace_global.simps [simp del]

lemma takeWhile_dropWhile_line:
  assumes "\<And>x. P x \<Longrightarrow> \<not> is_line_terminator x"
  shows "takeWhile P (dropWhile (\<lambda>x. \<not> is_line_terminator x) t) = []"
  using assms by (induction t) auto

lemma comment_lead:
  assumes "\<not> P 0x2D" and "\<And>x. P x \<Longrightarrow> \<not> is_line_terminator x"
  shows "takeWhile P (replace_global re_comment (\<lambda>_. []) p s) = takeWhile P s"
proof (induction "length s" arbitrary: s p rule: less_induct)
  case less
  show ?case
  proof (cases s)
    case Nil
    then show ?thesis by (simp add: comment_Nil)
  next
    case (Cons c cs)
    show ?thesis
    proof (cases "prefix (js ''--'') s")
      case True
      then obtain t where t: "s = 0x2D # 0x2D # t"
        by (auto simp: js_dashes prefix_def)
      let ?u = "dropWhile (\<lambda>x. \<not> is_line_terminator x) (drop 2 s)"
      have "length ?u < length s"
        using t length_dropWhile_le [of "\<lambda>x. \<not> is_line_terminator x" t] by simp
      from less [OF this, of None] have
        "takeWhile P (replace_global re_comment (\<lambda>_. []) None ?u) = takeWhile P ?u" .
      also have "\<dots> = []" using assms(2) by (rule takeWhile_dropWhile_line)
      finally show ?thesis using True t assms(1) by (simp add: comment_match)
    next
      case False
      have "length cs < length s" using Cons by simp
      from less [OF this, of None] show ?thesis
        using False Cons by (simp add: comment_skip)
    qed
  qed
qed

lemma strip_comments_run_free: "run_free 0x2D 2 (replace_global re_comment (\<lambda>_. []) p s)"
proof (induction "length s" arbitrary: s p rule: less_induct)
  case less
  show ?case
  proof (cases s)
    case Nil
    then show ?thesis by (simp add: comment_Nil)
  next
    case (Cons c cs)
    show ?thesis
    proof (cases "prefix (js ''--'') s")
      case True
      let ?u = "dropWhile (\<lambda>x. \<not> is_line_terminator x) (drop 2 s)"
      have "length ?u \<le> length (drop 2 s)" by (rule length_dropWhile_le)
      then have "length ?u < length s" using Cons by simp
      from less [OF this, of None] show ?thesis
        using True by (simp add: comment_match)
    next
      case False
      have "length cs < length s" using Cons by simp
      from less [OF this, of None]
      have rest: "run_free 0x2D 2 (replace_global re_comment (\<lambda>_. []) None cs)" .
      have head: "length (takeWhile (\<lambda>x. x = 0x2D) (c # replace_global re_comment (\<lambda>_. []) None cs)) < 2"
      proof (cases "c = 0x2D")
        case True
        then have "\<not> prefix [0x2D] cs"
          using False Cons by (auto simp: js_dashes)
        then have "\<not> prefix (js ''--'') cs" by (auto simp: js_dashes prefix_def)
        then have "takeWhile (\<lambda>x. x = 0x2D) (replace_global re_comment (\<lambda>_. []) None cs) = []"
          using \<open>\<not> prefix [0x2D] cs\<close>
          by (cases cs) (auto simp: comment_Nil comment_skip)
        then show ?thesis by simp
      next
        case False
        then show ?thesis by simp
      qed
      show ?thesis
        using False Cons rest head by (simp add: comment_skip del: takeWhile.simps(2))
    qed
  qed
qed

lemma strip_comments_keeps_run_free:
  assumes "run_free d k s" and "d \<noteq> 0x2D" and "\<not> is_line_terminator d"
  shows "run_free d k (replace_global re_comment (\<lambda>_. []) p s)"
  using assms(1)
proof (induction "length s" arbitrary: s p rule: less_induct)
  case less
  show ?case
  proof (cases s)
    case Nil
    then show ?thesis by (simp add: comment_Nil)
  next
    case (Cons c cs)
    show ?thesis
    proof (cases "prefix (js ''--'') s")
      case True
      let ?u = "dropWhile (\<lambda>x. \<not> is_line_terminator x) (drop 2 s)"
      have "length ?u \<le> length (drop 2 s)" by (rule length_dropWhile_le)
      then have len: "length ?u < length s" using Cons by simp
      have "run_free d k ?u"
        using less.prems by (intro run_free_dropWhile run_free_drop)
      from less.hyps [OF len this, of None] show ?thesis
        using True by (simp add: comment_match)
    next
      case False
      have len: "length cs < length s" using Cons by simp
      have "run_free d k cs" using less.prems Cons by simp
      from less.hyps [OF len this, of None]
      have rest: "run_free d k (replace_global re_comment (\<lambda>_. []) None cs)" .
      have "takeWhile (\<lambda>x. x = d) (replace_global re_comment (\<lambda>_. []) p s) = takeWhile (\<lambda>x. x = d) s"
        using assms(2,3) by (intro comment_lead) auto
      then have "length (takeWhile (\<lambda>x. x = d) (c # replace_global re_comment (\<lambda>_. []) None cs)) < k"
        using less.prems False Cons by (simp add: comment_skip del: takeWhile.simps(2))
      then show ?thesis
        using False Cons rest by (simp add: comment_skip del: takeWhile.simps(2))
    qed
  qed
qed

section \<open>Stripping the blank lines\<close>

lemma ws_newline_Some:
  "ws_newline s = Some n \<Longrightarrow>
     0 < n \<and> n \<le> length s \<and> is_line_terminator (last (take n s)) \<and> ws_newline (drop n s) = None"
proof (induction s arbitrary: n)
  case Nil
  then show ?case by simp
next
  case (Cons c cs)
  show ?case
  proof (cases "ws_newline cs")
    case None
    then show ?thesis
      using Cons.prems by (auto simp: is_line_terminator_def split: if_splits)
  next
    case (Some k)
    then have n: "n = Suc k" using Cons.prems by (auto split: if_splits)
    from Cons.IH [OF Some] show ?thesis using n by (cases k) auto
  qed
qed

lemma blank_prev:
  "at_line_start p = at_line_start q \<Longrightarrow>
     replace_global re_blank_line r p s = replace_global re_blank_line r q s"
  by (cases s) (simp_all add: re_blank_line_def replace_global.simps)

lemma blank_Nil: "replace_global re_blank_line (\<lambda>_. []) p [] = []"
  by (simp add: re_blank_line_def replace_global.simps)

lemma blank_match:
  assumes "at_line_start p" and "ws_newline s = Some n"
  shows "replace_global re_blank_line (\<lambda>_. []) p s =
         replace_global re_blank_line (\<lambda>_. []) None (drop n s)"
proof -
  from ws_newline_Some [OF assms(2)]
  have n: "0 < n" and lt: "is_line_terminator (last (take n s))" by simp_all
  from n obtain k where k: "n = Suc k" by (cases n) auto
  from assms(2) obtain c cs where s: "s = c # cs" by (cases s) auto
  have "replace_global re_blank_line (\<lambda>_. []) p s =
        replace_global re_blank_line (\<lambda>_. []) (Some (last (take n s))) (drop n s)"
    using assms k s by (simp add: re_blank_line_def replace_global.simps)
  also have "\<dots> = replace_global re_blank_line (\<lambda>_. []) None (drop n s)"
    using lt by (intro blank_prev) (simp add: at_line_start_def)
  finally show ?thesis .
qed

lemma blank_skip:
  assumes "re_blank_line p (c # cs) = None"
  shows "replace_global re_blank_line (\<lambda>_. []) p (c # cs) =
         c # replace_global re_blank_line (\<lambda>_. []) (Some c) cs"
  using assms by (simp add: replace_global.simps)

lemma blank_keeps_ws_newline:
  "ws_newline s = None \<Longrightarrow> ws_newline (replace_global re_blank_line (\<lambda>_. []) q s) = None"
proof (induction s arbitrary: q)
  case Nil
  then show ?case by (simp add: blank_Nil)
next
  case (Cons c cs)
  then have "re_blank_line q (c # cs) = None" by (simp add: re_blank_line_def)
  then have step: "replace_global re_blank_line (\<lambda>_. []) q (c # cs) =
      c # replace_global re_blank_line (\<lambda>_. []) (Some c) cs" by (rule blank_skip)
  show ?case
  proof (cases "is_white_space c")
    case True
    then have "ws_newline cs = None" and "\<not> (c = 0x0D \<or> c = 0x0A)"
      using Cons.prems by (auto split: option.splits if_splits)
    then show ?thesis using Cons.IH [of "Some c"] True by (simp add: step)
  next
    case False
    then show ?thesis by (simp add: step)
  qed
qed

lemma no_match_blank_prev:
  "at_line_start p = at_line_start q \<Longrightarrow> no_match re_blank_line p s = no_match re_blank_line q s"
  by (cases s) (simp_all add: re_blank_line_def)

lemma no_match_blank_weaken:
  "no_match re_blank_line None s \<Longrightarrow> no_match re_blank_line p s"
  by (cases s) (simp_all add: re_blank_line_def at_line_start_def)

lemma strip_blank_lines_no_match:
  "no_match re_blank_line q (replace_global re_blank_line (\<lambda>_. []) q s)"
proof (induction "length s" arbitrary: s q rule: less_induct)
  case less
  show ?case
  proof (cases s)
    case Nil
    then show ?thesis by (simp add: blank_Nil re_blank_line_def)
  next
    case (Cons c cs)
    show ?thesis
    proof (cases "re_blank_line q s")
      case None
      have "length cs < length s" using Cons by simp
      from less [OF this, of "Some c"]
      have rest: "no_match re_blank_line (Some c)
          (replace_global re_blank_line (\<lambda>_. []) (Some c) cs)" .
      have "re_blank_line q (c # replace_global re_blank_line (\<lambda>_. []) (Some c) cs) = None"
      proof (cases "at_line_start q")
        case True
        then have "ws_newline (c # cs) = None" using None Cons by (simp add: re_blank_line_def)
        then have "ws_newline (replace_global re_blank_line (\<lambda>_. []) q (c # cs)) = None"
          by (rule blank_keeps_ws_newline)
        then show ?thesis using None Cons True by (simp add: blank_skip re_blank_line_def)
      next
        case False
        then show ?thesis by (simp add: re_blank_line_def)
      qed
      then show ?thesis using None Cons rest by (simp add: blank_skip)
    next
      case (Some n)
      then have start: "at_line_start q" and ws: "ws_newline s = Some n"
        by (auto simp: re_blank_line_def split: if_splits)
      from ws_newline_Some [OF ws] have "length (drop n s) < length s" using Cons by simp
      from less [OF this, of None]
      have "no_match re_blank_line None (replace_global re_blank_line (\<lambda>_. []) None (drop n s))" .
      then have "no_match re_blank_line q (replace_global re_blank_line (\<lambda>_. []) None (drop n s))"
        by (rule no_match_blank_weaken)
      then show ?thesis by (simp add: blank_match [OF start ws])
    qed
  qed
qed

lemma blank_lead:
  assumes "\<And>x. P x \<Longrightarrow> \<not> is_line_terminator x"
  shows "\<not> at_line_start q \<Longrightarrow>
     takeWhile P (replace_global re_blank_line (\<lambda>_. []) q s) = takeWhile P s"
proof (induction s arbitrary: q)
  case Nil
  then show ?case by (simp add: blank_Nil)
next
  case (Cons c cs)
  then have step: "replace_global re_blank_line (\<lambda>_. []) q (c # cs) =
      c # replace_global re_blank_line (\<lambda>_. []) (Some c) cs"
    by (intro blank_skip) (simp add: re_blank_line_def)
  show ?case
  proof (cases "P c")
    case True
    then have "\<not> at_line_start (Some c)" using assms by (simp add: at_line_start_def)
    from Cons.IH [OF this] show ?thesis using True by (simp add: step)
  next
    case False
    then show ?thesis by (simp add: step)
  qed
qed

lemma strip_blank_lines_keeps_run_free:
  assumes "\<not> is_line_terminator d"
  shows "run_free d k s \<Longrightarrow> run_free d k (replace_global re_blank_line (\<lambda>_. []) q s)"
proof (induction "length s" arbitrary: s q rule: less_induct)
  case less
  show ?case
  proof (cases s)
    case Nil
    then show ?thesis by (simp add: blank_Nil)
  next
    case (Cons c cs)
    show ?thesis
    proof (cases "re_blank_line q s")
      case None
      have len: "length cs < length s" using Cons by simp
      have "run_free d k cs" using less.prems Cons by simp
      from less.hyps [OF len this, of "Some c"]
      have rest: "run_free d k (replace_global re_blank_line (\<lambda>_. []) (Some c) cs)" .
      have head: "length (takeWhile (\<lambda>x. x = d)
          (c # replace_global re_blank_line (\<lambda>_. []) (Some c) cs)) < k"
      proof (cases "c = d")
        case True
        then have "\<not> at_line_start (Some c)" using assms by (simp add: at_line_start_def)
        then have "takeWhile (\<lambda>x. x = d) (replace_global re_blank_line (\<lambda>_. []) (Some c) cs) =
            takeWhile (\<lambda>x. x = d) cs"
          using assms by (intro blank_lead) auto
        then show ?thesis using less.prems Cons True by simp
      next
        case False
        then show ?thesis using less.prems Cons by simp
      qed
      show ?thesis using None Cons rest head by (simp add: blank_skip del: takeWhile.simps(2))
    next
      case (Some n)
      then have start: "at_line_start q" and ws: "ws_newline s = Some n"
        by (auto simp: re_blank_line_def split: if_splits)
      from ws_newline_Some [OF ws] have len: "length (drop n s) < length s" using Cons by simp
      have "run_free d k (drop n s)" using less.prems by (rule run_free_drop)
      from less.hyps [OF len this, of None] show ?thesis
        by (simp add: blank_match [OF start ws])
    qed
  qed
qed

section \<open>Coercion, truncation and trimming\<close>

lemma no_match_not_select: "no_match re_not_select (Some c) s"
  by (induction s arbitrary: c) (simp_all add: re_not_select_def)

lemma coerce_select_eq: "coerce_select s = (if select_ws s then s else js ''SELECT '' @ s)"
proof (cases s)
  case Nil
  then show ?thesis by (simp add: coerce_select_def re_not_select_def select_ws_def)
next
  case (Cons c cs)
  have "replace_first re_not_select (\<lambda>_. js ''SELECT '') (Some c) cs = cs"
    by (rule replace_first_no_match) (rule no_match_not_select)
  then show ?thesis using Cons by (simp add: coerce_select_def re_not_select_def)
qed

lemma truncate_at_semicolon_gen:
  "replace_first re_semicolon_rest (\<lambda>_. js '';'') p s =
     (if 0x3B \<in> set s then takeWhile (\<lambda>c. c \<noteq> 0x3B) s @ [0x3B] else s)"
  by (induction s arbitrary: p) (auto simp: re_semicolon_rest_def js_def)

lemma truncate_at_semicolon_eq:
  "truncate_at_semicolon s =
     (if 0x3B \<in> set s then takeWhile (\<lambda>c. c \<noteq> 0x3B) s @ [0x3B] else s)"
  by (simp add: truncate_at_semicolon_def truncate_at_semicolon_gen)

lemma ensure_semicolon_gen:
  "replace_first re_last_not_semicolon (\<lambda>match. match @ js '';'') p s =
     (if s = [] \<or> last s = 0x3B then s else s @ [0x3B])"
proof (induction s arbitrary: p)
  case Nil
  then show ?case by (simp add: re_last_not_semicolon_def)
next
  case (Cons c cs)
  then show ?case by (cases cs) (auto simp: re_last_not_semicolon_def js_def)
qed

lemma ensure_semicolon_eq:
  "ensure_semicolon s = (if s = [] \<or> last s = 0x3B then s else s @ [0x3B])"
  by (simp add: ensure_semicolon_def ensure_semicolon_gen)

lemma finish_eq:
  assumes "s \<noteq> []"
  shows "ensure_semicolon (truncate_at_semicolon s) = takeWhile (\<lambda>c. c \<noteq> 0x3B) s @ [0x3B]"
proof (cases "0x3B \<in> set s")
  case True
  then show ?thesis by (simp add: truncate_at_semicolon_eq ensure_semicolon_eq)
next
  case False
  then have l: "last s \<noteq> 0x3B" using assms last_in_set by metis
  have tw: "takeWhile (\<lambda>c. c \<noteq> 0x3B) s = s" using False by auto
  show ?thesis using False assms l
    by (simp add: truncate_at_semicolon_eq ensure_semicolon_eq tw)
qed

lemma js_trim_id:
  assumes "s \<noteq> []" and "\<not> is_white_space (hd s)" and "\<not> is_white_space (last s)"
  shows "js_trim s = s"
proof -
  have "dropWhile is_white_space s = s" using assms(1,2) by (cases s) auto
  moreover have "dropWhile is_white_space (rev s) = rev s"
    using assms(1,3) by (cases "rev s") (auto simp: last_rev [symmetric] hd_rev)
  ultimately show ?thesis by (simp add: js_trim_def)
qed

lemma select_ws_cases:
  assumes "select_ws s"
  obtains a b c d e f w r where "s = a # b # c # d # e # f # w # r"
    and "ci_eq 0x53 a" and "ci_eq 0x45 b" and "ci_eq 0x4C c" and "ci_eq 0x45 d"
    and "ci_eq 0x43 e" and "ci_eq 0x54 f" and "is_white_space w"
proof -
  from assms have p: "ci_prefix (js ''SELECT'') s" and
    w: "(case drop 6 s of [] \<Rightarrow> False | x # _ \<Rightarrow> is_white_space x)"
    by (simp_all add: select_ws_def)
  from p obtain a s1 where s1: "s = a # s1" "ci_eq 0x53 a" "ci_prefix (js ''ELECT'') s1"
    by (cases s) (auto simp: js_def)
  from s1(3) obtain b s2 where s2: "s1 = b # s2" "ci_eq 0x45 b" "ci_prefix (js ''LECT'') s2"
    by (cases s1) (auto simp: js_def)
  from s2(3) obtain c s3 where s3: "s2 = c # s3" "ci_eq 0x4C c" "ci_prefix (js ''ECT'') s3"
    by (cases s2) (auto simp: js_def)
  from s3(3) obtain d s4 where s4: "s3 = d # s4" "ci_eq 0x45 d" "ci_prefix (js ''CT'') s4"
    by (cases s3) (auto simp: js_def)
  from s4(3) obtain e s5 where s5: "s4 = e # s5" "ci_eq 0x43 e" "ci_prefix (js ''T'') s5"
    by (cases s4) (auto simp: js_def)
  from s5(3) obtain f s6 where s6: "s5 = f # s6" "ci_eq 0x54 f"
    by (cases s5) (auto simp: js_def)
  from w obtain x r where s7: "s6 = x # r" "is_white_space x"
    using s1(1) s2(1) s3(1) s4(1) s5(1) s6(1) by (cases s6) auto
  show ?thesis
    using that [of a b c d e f x r] s1 s2 s3 s4 s5 s6 s7 by simp
qed

lemma not_ws_semicolon: "\<not> is_white_space 0x3B"
  by (simp add: is_white_space_def is_line_terminator_def)

lemma ci_eq_letter:
  "ci_eq 0x53 a \<Longrightarrow> a \<noteq> 0x3B \<and> \<not> is_white_space a"
  "ci_eq 0x45 a \<Longrightarrow> a \<noteq> 0x3B \<and> \<not> is_white_space a"
  "ci_eq 0x4C a \<Longrightarrow> a \<noteq> 0x3B \<and> \<not> is_white_space a"
  "ci_eq 0x43 a \<Longrightarrow> a \<noteq> 0x3B \<and> \<not> is_white_space a"
  "ci_eq 0x54 a \<Longrightarrow> a \<noteq> 0x3B \<and> \<not> is_white_space a"
  by (auto simp: ci_eq_def is_white_space_def is_line_terminator_def)

lemma select_ws_intro:
  "ci_eq 0x53 a \<Longrightarrow> ci_eq 0x45 b \<Longrightarrow> ci_eq 0x4C c \<Longrightarrow> ci_eq 0x45 d \<Longrightarrow>
   ci_eq 0x43 e \<Longrightarrow> ci_eq 0x54 f \<Longrightarrow> is_white_space w \<Longrightarrow>
   select_ws (a # b # c # d # e # f # w # r)"
  by (simp add: select_ws_def js_def)

lemma select_ws_finish:
  assumes "select_ws s"
  shows "select_ws (takeWhile (\<lambda>c. c \<noteq> 0x3B) s @ [0x3B])"
proof -
  from assms obtain a b c d e f w r where s: "s = a # b # c # d # e # f # w # r"
    and l: "ci_eq 0x53 a" "ci_eq 0x45 b" "ci_eq 0x4C c" "ci_eq 0x45 d" "ci_eq 0x43 e" "ci_eq 0x54 f"
    and w: "is_white_space w"
    by (rule select_ws_cases)
  have "w \<noteq> 0x3B" using w not_ws_semicolon by auto
  then have "takeWhile (\<lambda>c. c \<noteq> 0x3B) s @ [0x3B] =
      a # b # c # d # e # f # w # (takeWhile (\<lambda>c. c \<noteq> 0x3B) r @ [0x3B])"
    using s l by (simp add: ci_eq_letter)
  then show ?thesis using l w by (simp add: select_ws_intro)
qed

lemma select_ws_coerce: "select_ws (coerce_select s)"
  by (simp add: coerce_select_eq) (simp add: select_ws_def js_def ci_eq_def is_white_space_def)

lemma select_ws_hd: "select_ws s \<Longrightarrow> s \<noteq> [] \<and> \<not> is_white_space (hd s) \<and> hd s \<noteq> 0x3B"
  by (erule select_ws_cases) (simp add: ci_eq_letter)

section \<open>The sanitized statement\<close>

lemma takeWhile_finish_le:
  "\<not> P y \<Longrightarrow> length (takeWhile P (takeWhile Q s @ [y])) \<le> length (takeWhile P s)"
  by (induction s) auto

lemma run_free_finish:
  assumes "d \<noteq> y" and "0 < k"
  shows "run_free d k s \<Longrightarrow> run_free d k (takeWhile Q s @ [y])"
proof (induction s)
  case Nil
  then show ?case using assms by simp
next
  case (Cons c cs)
  show ?case
  proof (cases "Q c")
    case True
    have "length (takeWhile (\<lambda>x. x = d) (takeWhile Q (c # cs) @ [y])) \<le>
        length (takeWhile (\<lambda>x. x = d) (c # cs))"
      using assms(1) by (intro takeWhile_finish_le) simp
    then have "length (takeWhile (\<lambda>x. x = d) (c # (takeWhile Q cs @ [y]))) < k"
      using Cons.prems True by (simp del: takeWhile.simps(2)) (simp split: if_splits)
    then show ?thesis using Cons True by (simp del: takeWhile.simps(2)) simp
  next
    case False
    then show ?thesis using assms by simp
  qed
qed

lemma run_free_prepend:
  "run_free d k s \<Longrightarrow> 0 < k \<Longrightarrow> d \<notin> set pre \<Longrightarrow> run_free d k (pre @ s)"
  by (induction pre) auto

lemma ws_newline_finish:
  "ws_newline s = None \<Longrightarrow> ws_newline (takeWhile (\<lambda>c. c \<noteq> 0x3B) s @ [0x3B]) = None"
proof (induction s)
  case Nil
  then show ?case by (simp add: not_ws_semicolon)
next
  case (Cons c cs)
  then show ?case by (auto simp: not_ws_semicolon split: if_splits option.splits)
qed

lemma no_match_blank_finish:
  "no_match re_blank_line p s \<Longrightarrow>
     no_match re_blank_line p (takeWhile (\<lambda>c. c \<noteq> 0x3B) s @ [0x3B])"
proof (induction s arbitrary: p)
  case Nil
  then show ?case by (simp add: re_blank_line_def not_ws_semicolon)
next
  case (Cons c cs)
  show ?case
  proof (cases "c = 0x3B")
    case True
    then show ?thesis by (simp add: re_blank_line_def not_ws_semicolon)
  next
    case False
    have "re_blank_line p (c # (takeWhile (\<lambda>c. c \<noteq> 0x3B) cs @ [0x3B])) = None"
    proof (cases "at_line_start p")
      case True
      then have "ws_newline (c # cs) = None" using Cons.prems by (simp add: re_blank_line_def)
      from ws_newline_finish [OF this] show ?thesis using False by (simp add: re_blank_line_def)
    next
      case False
      then show ?thesis by (simp add: re_blank_line_def)
    qed
    then show ?thesis using Cons False by simp
  qed
qed

lemma no_match_blank_prepend:
  assumes "no_match re_blank_line None s"
  shows "no_match re_blank_line None (js ''SELECT '' @ s)"
proof -
  have "no_match re_blank_line (Some 0x20) s" using assms by (rule no_match_blank_weaken)
  then show ?thesis
    by (simp add: js_def re_blank_line_def at_line_start_def is_line_terminator_def
        is_white_space_def)
qed

lemma finish_coerce:
  "ensure_semicolon (truncate_at_semicolon (coerce_select t)) =
     takeWhile (\<lambda>c. c \<noteq> 0x3B) (coerce_select t) @ [0x3B]"
proof -
  have "select_ws (coerce_select t)" by (rule select_ws_coerce)
  then have "coerce_select t \<noteq> []" using select_ws_hd by blast
  then show ?thesis by (rule finish_eq)
qed

text \<open>
  The last step never changes its argument: the text it gets starts with a letter and
  ends with the terminator.
\<close>

lemma final_trim_is_identity:
  "js_trim (ensure_semicolon (truncate_at_semicolon (coerce_select t))) =
     ensure_semicolon (truncate_at_semicolon (coerce_select t))"
proof -
  let ?o = "takeWhile (\<lambda>c. c \<noteq> 0x3B) (coerce_select t) @ [0x3B]"
  have "select_ws (coerce_select t)" by (rule select_ws_coerce)
  then have "select_ws ?o" by (rule select_ws_finish)
  then have "\<not> is_white_space (hd ?o)" using select_ws_hd by blast
  moreover have "\<not> is_white_space (last ?o)" by (simp add: not_ws_semicolon)
  ultimately have "js_trim ?o = ?o" by (intro js_trim_id) simp_all
  then show ?thesis by (simp only: finish_coerce)
qed

lemma sanitize_eq:
  "sanitizeSqlQuery s =
     takeWhile (\<lambda>c. c \<noteq> 0x3B)
       (coerce_select (strip_blank_lines (strip_comments (strip_fences (strip_sql_fences s)))))
     @ [0x3B]"
  by (simp only: sanitizeSqlQuery_def final_trim_is_identity) (rule finish_coerce)

lemma sanitize_select_ws: "select_ws (sanitizeSqlQuery s)"
  by (simp only: sanitize_eq) (intro select_ws_finish select_ws_coerce)

lemma takeWhile_finish_idem:
  "takeWhile (\<lambda>c. c \<noteq> y) (takeWhile (\<lambda>c. c \<noteq> y) s @ [y]) = takeWhile (\<lambda>c. c \<noteq> y) s"
  by (induction s) auto

lemma sanitize_semicolon:
  "takeWhile (\<lambda>c. c \<noteq> 0x3B) (sanitizeSqlQuery s) @ [0x3B] = sanitizeSqlQuery s"
  by (simp add: sanitize_eq takeWhile_finish_idem)

lemma coerce_run_free:
  "run_free d k s \<Longrightarrow> 0 < k \<Longrightarrow> d \<notin> set (js ''SELECT '') \<Longrightarrow> run_free d k (coerce_select s)"
  by (simp add: coerce_select_eq run_free_prepend)

lemma sanitize_fence_free: "run_free 0x60 3 (sanitizeSqlQuery s)"
proof -
  have "run_free 0x60 3 (strip_fences (strip_sql_fences s))"
    by (simp add: strip_fences_def strip_fences_run_free)
  then have "run_free 0x60 3 (strip_comments (strip_fences (strip_sql_fences s)))"
    unfolding strip_comments_def
    by (rule strip_comments_keeps_run_free) (simp_all add: is_line_terminator_def)
  then have "run_free 0x60 3
      (strip_blank_lines (strip_comments (strip_fences (strip_sql_fences s))))"
    unfolding strip_blank_lines_def
    by (intro strip_blank_lines_keeps_run_free) (simp_all add: is_line_terminator_def)
  then have "run_free 0x60 3 (coerce_select
      (strip_blank_lines (strip_comments (strip_fences (strip_sql_fences s)))))"
    by (rule coerce_run_free) (simp_all add: js_def)
  then show ?thesis by (simp only: sanitize_eq) (intro run_free_finish; simp)
qed

lemma sanitize_comment_free: "run_free 0x2D 2 (sanitizeSqlQuery s)"
proof -
  have "run_free 0x2D 2 (strip_comments (strip_fences (strip_sql_fences s)))"
    by (simp add: strip_comments_def strip_comments_run_free)
  then have "run_free 0x2D 2
      (strip_blank_lines (strip_comments (strip_fences (strip_sql_fences s))))"
    unfolding strip_blank_lines_def
    by (intro strip_blank_lines_keeps_run_free) (simp_all add: is_line_terminator_def)
  then have "run_free 0x2D 2 (coerce_select
      (strip_blank_lines (strip_comments (strip_fences (strip_sql_fences s)))))"
    by (rule coerce_run_free) (simp_all add: js_def)
  then show ?thesis by (simp only: sanitize_eq) (intro run_free_finish; simp)
qed

lemma sanitize_blank_free: "no_match re_blank_line None (sanitizeSqlQuery s)"
proof -
  let ?t = "strip_blank_lines (strip_comments (strip_fences (strip_sql_fences s)))"
  have t: "no_match re_blank_line None ?t"
    by (simp add: strip_blank_lines_def strip_blank_lines_no_match)
  have "no_match re_blank_line None (coerce_select ?t)"
    using t no_match_blank_prepend [OF t] by (simp add: coerce_select_eq)
  then show ?thesis by (simp only: sanitize_eq) (rule no_match_blank_finish)
qed

lemma sanitize_fixed_point:
  assumes "run_free 0x60 3 s" and "run_free 0x2D 2 s" and "no_match re_blank_line None s"
    and "select_ws s" and "takeWhile (\<lambda>c. c \<noteq> 0x3B) s @ [0x3B] = s"
  shows "sanitizeSqlQuery s = s"
proof -
  have 1: "strip_sql_fences s = s"
    unfolding strip_sql_fences_def
    using assms(1) by (intro replace_global_no_match no_match_fence_sql)
  have 2: "strip_fences s = s"
    unfolding strip_fences_def
    using assms(1) by (intro replace_global_no_match) (simp add: no_match_fence_iff)
  have 3: "strip_comments s = s"
    unfolding strip_comments_def
    using assms(2) by (intro replace_global_no_match) (simp add: no_match_comment_iff)
  have 4: "strip_blank_lines s = s"
    unfolding strip_blank_lines_def
    using assms(3) by (intro replace_global_no_match)
  have 5: "coerce_select s = s" using assms(4) by (simp add: coerce_select_eq)
  show ?thesis by (simp only: sanitize_eq 1 2 3 4 5 assms(5))
qed

lemmas sanitize_defs =
  sanitizeSqlQuery_def js_def strip_sql_fences_def strip_fences_def strip_comments_def
  strip_blank_lines_def coerce_select_def truncate_at_semicolon_def ensure_semicolon_def
  js_trim_def re_fence_sql_def re_fence_def re_comment_def re_blank_line_def re_not_select_def
  re_semicolon_rest_def re_last_not_semicolon_def select_ws_def ci_eq_def is_white_space_def
  is_line_terminator_def at_line_start_def replace_global.simps

lemma strip_keeps_delete:
  "strip_blank_lines (strip_comments (strip_fences (strip_sql_fences (js ''DELETE'' @ r)))) =
     js ''DELETE'' @
       replace_global re_blank_line (\<lambda>_. []) (Some 0x45)
         (replace_global re_comment (\<lambda>_. []) (Some 0x45)
           (replace_global re_fence (\<lambda>_. []) (Some 0x45)
             (replace_global re_fence_sql (\<lambda>_. []) (Some 0x45) r)))"
  by (simp add: sanitize_defs)

lemma handler_connected:
  assumes "createConnection w (connection_options w inp) = None"
  shows "handler w inp =
     (let g = generateSqlQuery w (openaiApiKey inp) (or_default (schema inp) (js ''[]''))
                (question inp) (parseInt w (or_default (maxRows inp) (js ''100'')));
          b = (case snd g of
                 Inl e \<Rightarrow> ([], Inl e)
               | Inr sqlQuery \<Rightarrow>
                   ([ConnectionQuery (sanitizeSqlQuery sqlQuery)],
                    case connection_query w (sanitizeSqlQuery sqlQuery) of
                      Inl queryError \<Rightarrow> Inl (query_failed queryError)
                    | Inr rows \<Rightarrow> Inr (formatResponse w rows (instructions inp))));
          t = CreateConnection (connection_options w inp) # fst g @ fst b @ [ConnectionEnd]
      in (t, case connection_end w of None \<Rightarrow> snd b | Some e \<Rightarrow> Inl e))"
  using assms
  by (cases "connection_end w") (simp_all add: handler_def Let_def split_beta cong: sum.case_cong)

section \<open>The claims\<close>

text \<open>
  C1, as the code has it. A candidate that begins with a write verb such as \<open>DELETE\<close>
  does not begin with \<open>SELECT\<close> and white space, so step 4 prepends \<open>SELECT \<close> to it.
  For every candidate, the sanitized statement is the candidate after the stripping of
  fences, comments and blank lines, with \<open>SELECT \<close> in front unless that text begins with
  \<open>SELECT\<close> and white space, cut off before its first \<open>;\<close> and closed with one \<open>;\<close>.
  For every candidate that begins with \<open>DELETE\<close>, the stripped text still begins with
  \<open>DELETE\<close>, and the sanitized statement is \<open>SELECT \<close>, the stripped text up to its
  first \<open>;\<close>, and \<open>;\<close>. So \<open>DELETE FROM t;\<close> and \<open>DELETE FROM t\<close> both sanitize to
  \<open>SELECT DELETE FROM t;\<close>, a second line of the statement is kept, and \<open>UPDATE\<close> and
  \<open>INSERT\<close> statements get the same prefix.
\<close>

theorem delete_is_coerced:
  "coerce_select (js ''DELETE'' @ r) = js ''SELECT DELETE'' @ r \<and>
   prefix (js ''DELETE'')
     (strip_blank_lines (strip_comments (strip_fences (strip_sql_fences (js ''DELETE'' @ r))))) \<and>
   sanitizeSqlQuery (js ''DELETE'' @ r) =
     js ''SELECT '' @
     takeWhile (\<lambda>c. c \<noteq> 0x3B)
       (strip_blank_lines (strip_comments (strip_fences (strip_sql_fences (js ''DELETE'' @ r))))) @
     [0x3B] \<and>
   prefix (js ''SELECT DELETE'') (sanitizeSqlQuery (js ''DELETE'' @ r)) \<and>
   sanitizeSqlQuery s =
     takeWhile (\<lambda>c. c \<noteq> 0x3B)
       (if select_ws (strip_blank_lines (strip_comments (strip_fences (strip_sql_fences s))))
        then strip_blank_lines (strip_comments (strip_fences (strip_sql_fences s)))
        else js ''SELECT '' @
             strip_blank_lines (strip_comments (strip_fences (strip_sql_fences s)))) @
     [0x3B] \<and>
   sanitizeSqlQuery (js ''DELETE FROM t;'') = js ''SELECT DELETE FROM t;'' \<and>
   sanitizeSqlQuery (js ''DELETE FROM t'') = js ''SELECT DELETE FROM t;'' \<and>
   sanitizeSqlQuery (js ''DELETE FROM t'' @ [0x0A] @ js ''WHERE id = 1;'') =
     js ''SELECT DELETE FROM t'' @ [0x0A] @ js ''WHERE id = 1;'' \<and>
   sanitizeSqlQuery (js ''UPDATE t SET a = 1;'') = js ''SELECT UPDATE t SET a = 1;'' \<and>
   sanitizeSqlQuery (js ''INSERT INTO t VALUES (1);'') = js ''SELECT INSERT INTO t VALUES (1);''"
proof -
  let ?t = "strip_blank_lines (strip_comments (strip_fences (strip_sql_fences (js ''DELETE'' @ r))))"
  have not_sel: "\<not> select_ws (js ''DELETE'' @ x)" for x
    by (simp add: select_ws_def js_def ci_eq_def)
  have c: "coerce_select (js ''DELETE'' @ r) = js ''SELECT DELETE'' @ r"
    using not_sel by (simp add: coerce_select_eq) (simp add: js_def)
  have p: "prefix (js ''DELETE'') ?t"
    by (simp only: strip_keeps_delete) simp
  have "\<not> select_ws ?t"
    by (simp only: strip_keeps_delete) (rule not_sel)
  then have "sanitizeSqlQuery (js ''DELETE'' @ r) =
      takeWhile (\<lambda>c. c \<noteq> 0x3B) (js ''SELECT '' @ ?t) @ [0x3B]"
    by (simp add: sanitize_eq coerce_select_eq)
  also have "\<dots> = js ''SELECT '' @ takeWhile (\<lambda>c. c \<noteq> 0x3B) ?t @ [0x3B]"
    by (simp add: js_def)
  finally have e: "sanitizeSqlQuery (js ''DELETE'' @ r) =
      js ''SELECT '' @ takeWhile (\<lambda>c. c \<noteq> 0x3B) ?t @ [0x3B]" .
  have "prefix (js ''SELECT DELETE'') (js ''SELECT '' @ takeWhile (\<lambda>c. c \<noteq> 0x3B) ?t @ [0x3B])"
    by (simp only: strip_keeps_delete) (simp add: js_def)
  then have q: "prefix (js ''SELECT DELETE'') (sanitizeSqlQuery (js ''DELETE'' @ r))"
    by (simp only: e)
  have g: "sanitizeSqlQuery s =
     takeWhile (\<lambda>c. c \<noteq> 0x3B)
       (if select_ws (strip_blank_lines (strip_comments (strip_fences (strip_sql_fences s))))
        then strip_blank_lines (strip_comments (strip_fences (strip_sql_fences s)))
        else js ''SELECT '' @
             strip_blank_lines (strip_comments (strip_fences (strip_sql_fences s)))) @
     [0x3B]"
    by (simp only: sanitize_eq coerce_select_eq)
  have i1: "sanitizeSqlQuery (js ''DELETE FROM t;'') = js ''SELECT DELETE FROM t;''"
    by code_simp
  have i2: "sanitizeSqlQuery (js ''DELETE FROM t'') = js ''SELECT DELETE FROM t;''"
    by code_simp
  have i3: "sanitizeSqlQuery (js ''DELETE FROM t'' @ [0x0A] @ js ''WHERE id = 1;'') =
     js ''SELECT DELETE FROM t'' @ [0x0A] @ js ''WHERE id = 1;''"
    by code_simp
  have i4: "sanitizeSqlQuery (js ''UPDATE t SET a = 1;'') = js ''SELECT UPDATE t SET a = 1;''"
    by code_simp
  have i5: "sanitizeSqlQuery (js ''INSERT INTO t VALUES (1);'') =
     js ''SELECT INSERT INTO t VALUES (1);''"
    by code_simp
  from c p e q g i1 i2 i3 i4 i5 show ?thesis by (intro conjI)
qed

text \<open>
  C1 as stated fails: neither step 4 nor the whole Guardrail leaves \<open>DELETE FROM t;\<close>
  as it is.
\<close>

theorem delete_not_untouched:
  "coerce_select (js ''DELETE FROM t;'') \<noteq> js ''DELETE FROM t;'' \<and>
   sanitizeSqlQuery (js ''DELETE FROM t;'') \<noteq> js ''DELETE FROM t;''"
  by code_simp

text \<open>
  C2: the row cap reaches generateSqlQuery and is not used there. The completion request
  is the same for any two row caps, and so is the whole run of the handler for any two
  values of the \<open>maxRows\<close> parameter; the system message only says
  \<open>Limit results using LIMIT clause\<close>.
\<close>

theorem row_cap_unused:
  "completion_request key schemaInfo q m1 = completion_request key schemaInfo q m2 \<and>
   handler w (inp\<lparr>maxRows := a\<rparr>) = handler w (inp\<lparr>maxRows := b\<rparr>)"
  by (auto simp: completion_request_def handler_def generateSqlQuery_def connection_options_def Let_def split: option.splits sum.splits prod.splits)

text \<open>
  C3, as the code has it. Step 4 prepends \<open>SELECT \<close> exactly when the text that reaches
  it (which is not trimmed) does not begin with \<open>SELECT\<close>, in any letter case, followed by
  a white space code unit; \<open>name, age FROM users\<close> sanitizes to
  \<open>SELECT name, age FROM users;\<close>.
\<close>

theorem coerce_select_exactly:
  "coerce_select t = (if select_ws t then t else js ''SELECT '' @ t) \<and>
   sanitizeSqlQuery (js ''name, age FROM users'') = js ''SELECT name, age FROM users;''"
proof
  show "coerce_select t = (if select_ws t then t else js ''SELECT '' @ t)"
    by (rule coerce_select_eq)
  show "sanitizeSqlQuery (js ''name, age FROM users'') = js ''SELECT name, age FROM users;''"
    by code_simp
qed

text \<open>
  C3 as stated fails: \<open>SELECT* FROM users\<close> begins with \<open>SELECT\<close>, the next code unit
  is not white space, and \<open>SELECT \<close> is prepended.
\<close>

theorem select_star_is_coerced:
  "ci_prefix (js ''SELECT'') (js_trim (js ''SELECT* FROM users'')) \<and>
   coerce_select (js ''SELECT* FROM users'') = js ''SELECT SELECT* FROM users'' \<and>
   sanitizeSqlQuery (js ''SELECT* FROM users'') = js ''SELECT SELECT* FROM users;''"
  by code_simp

text \<open>
  C4: the fenced input \<open>```sql\<close>, LF, \<open>SELECT 1\<close>, LF, \<open>```\<close> sanitizes to
  \<open>SELECT 1\<close>, LF, \<open>;\<close>: the line feed in front of the closing fence stays, since the
  terminator is appended before the text is trimmed.
\<close>

theorem fenced_select_keeps_newline:
  "sanitizeSqlQuery (js ''```sql'' @ [0x0A] @ js ''SELECT 1'' @ [0x0A] @ js ''```'') =
     js ''SELECT 1'' @ [0x0A] @ js '';''"
  by code_simp

text \<open>
  C5: sanitizing is idempotent. The sanitized statement has no fence, no comment start
  and no blank line left, begins with \<open>SELECT\<close> and white space and ends with its only
  \<open>;\<close>, and such a text is a fixed point of every step.
\<close>

theorem sanitizeSqlQuery_idempotent:
  "sanitizeSqlQuery (sanitizeSqlQuery s) = sanitizeSqlQuery s"
  by (intro sanitize_fixed_point sanitize_fence_free sanitize_comment_free sanitize_blank_free
      sanitize_select_ws sanitize_semicolon)

theorem sanitizeSqlQuery_idempotent_witness:
  "sanitizeSqlQuery (js ''```sql'' @ [0x0A] @ js ''name -- the name'' @ [0x0A] @ js ''FROM t; DROP TABLE t;```'') =
     js ''SELECT name '' @ [0x0A] @ js ''FROM t;'' \<and>
   sanitizeSqlQuery (js ''SELECT name '' @ [0x0A] @ js ''FROM t;'') =
     js ''SELECT name '' @ [0x0A] @ js ''FROM t;''"
proof -
  have e: "sanitizeSqlQuery (js ''```sql'' @ [0x0A] @ js ''name -- the name'' @ [0x0A] @ js ''FROM t; DROP TABLE t;```'') =
     js ''SELECT name '' @ [0x0A] @ js ''FROM t;''"
    by code_simp
  show ?thesis
    using sanitizeSqlQuery_idempotent
      [of "js ''```sql'' @ [0x0A] @ js ''name -- the name'' @ [0x0A] @ js ''FROM t; DROP TABLE t;```''"]
    by (simp only: e simp_thms)
qed

text \<open>
  C6: the sanitized statement has exactly one \<open>;\<close>, and it is its last code unit.
\<close>

theorem single_semicolon_at_end:
  "count_list (sanitizeSqlQuery s) 0x3B = 1 \<and> sanitizeSqlQuery s \<noteq> [] \<and>
   last (sanitizeSqlQuery s) = 0x3B"
proof -
  let ?b = "takeWhile (\<lambda>c. c \<noteq> 0x3B)
    (coerce_select (strip_blank_lines (strip_comments (strip_fences (strip_sql_fences s)))))"
  have "0x3B \<notin> set ?b" using set_takeWhileD by fastforce
  then have "count_list ?b 0x3B = 0" by (simp add: count_list_0_iff)
  then show ?thesis by (simp add: sanitize_eq)
qed

theorem single_semicolon_at_end_witness:
  "count_list (sanitizeSqlQuery (js ''SELECT 1; DROP TABLE t;'')) 0x3B = 1 \<and>
   last (sanitizeSqlQuery (js ''SELECT 1; DROP TABLE t;'')) = 0x3B \<and>
   sanitizeSqlQuery (js ''SELECT 1; DROP TABLE t;'') = js ''SELECT 1;''"
proof -
  have e: "sanitizeSqlQuery (js ''SELECT 1; DROP TABLE t;'') = js ''SELECT 1;''"
    by code_simp
  show ?thesis
    using single_semicolon_at_end [of "js ''SELECT 1; DROP TABLE t;''"] by (simp add: e)
qed

text \<open>
  C7: the sanitized statement begins with \<open>SELECT\<close>, in any letter case.
\<close>

theorem begins_with_select:
  "ci_prefix (js ''SELECT'') (sanitizeSqlQuery s)"
  using sanitize_select_ws [of s] by (simp add: select_ws_def)

theorem begins_with_select_witness:
  "ci_prefix (js ''SELECT'') (sanitizeSqlQuery (js ''select 1'')) \<and>
   ci_prefix (js ''SELECT'') (sanitizeSqlQuery (js ''DROP TABLE t''))"
  using begins_with_select [of "js ''select 1''"] begins_with_select [of "js ''DROP TABLE t''"]
  by (simp only: simp_thms)

text \<open>
  C8, as the code has it. The handler opens the connection before it asks for the
  completion. When the connection opens and the completion has no content, or content
  that trims to the empty string, the run creates the connection, requests the
  completion and ends the connection, in this order and with no query; it reports the
  generation failure, unless ending the connection throws.
\<close>

theorem generation_failure_runs_no_query:
  assumes "createConnection w (connection_options w inp) = None"
    and "completions_create w
           (completion_request (openaiApiKey inp) (or_default (schema inp) (js ''[]''))
              (question inp) (parseInt w (or_default (maxRows inp) (js ''100'')))) = Inr content"
    and "case content of None \<Rightarrow> True | Some text \<Rightarrow> js_trim text = []"
  shows "handler w inp =
     ([CreateConnection (connection_options w inp),
       CompletionsCreate
         (completion_request (openaiApiKey inp) (or_default (schema inp) (js ''[]''))
            (question inp) (parseInt w (or_default (maxRows inp) (js ''100'')))),
       ConnectionEnd],
      case connection_end w of None \<Rightarrow> Inl GenerationFailure | Some e \<Rightarrow> Inl e)"
proof -
  have "generateSqlQuery w (openaiApiKey inp) (or_default (schema inp) (js ''[]''))
          (question inp) (parseInt w (or_default (maxRows inp) (js ''100''))) =
        ([CompletionsCreate
            (completion_request (openaiApiKey inp) (or_default (schema inp) (js ''[]''))
               (question inp) (parseInt w (or_default (maxRows inp) (js ''100''))))],
         Inl GenerationFailure)"
    using assms(2,3) by (cases content) (simp_all add: generateSqlQuery_def Let_def)
  then show ?thesis
    by (cases "connection_end w") (simp_all add: handler_connected [OF assms(1)] Let_def)
qed

theorem generation_failure_runs_no_query_witness:
  "createConnection silent_world (connection_options silent_world sample_input) = None \<and>
   handler silent_world sample_input =
     ([CreateConnection (connection_options silent_world sample_input),
       CompletionsCreate (completion_request (js ''key'') (js ''[]'')
          (js ''How many users are there?'') (100 :: nat)),
       ConnectionEnd],
      Inl GenerationFailure)"
proof -
  have c: "createConnection silent_world (connection_options silent_world sample_input) = None"
    by (simp add: silent_world_def)
  have r: "completions_create silent_world
           (completion_request (openaiApiKey sample_input)
              (or_default (schema sample_input) (js ''[]''))
              (question sample_input)
              (parseInt silent_world (or_default (maxRows sample_input) (js ''100'')))) = Inr None"
    by (simp add: silent_world_def)
  show ?thesis
    using generation_failure_runs_no_query [OF c r] c
    by (simp add: silent_world_def sample_input_def or_default_def) (simp add: js_def)
qed

text \<open>
  C8 as stated fails: in a run whose completion has no content, the connection is
  created first and ended last, around the generation failure.
\<close>

theorem connection_opened_before_generation_failure:
  "snd (handler silent_world sample_input) = Inl GenerationFailure \<and>
   hd (fst (handler silent_world sample_input)) =
     CreateConnection
       \<lparr>opt_host = js ''localhost'', opt_port = 3306, opt_user = js ''reader'',
        opt_password = js ''secret'', opt_database = js ''shop'', opt_ssl_ca = js ''cert'',
        opt_ssl_rejectUnauthorized = False\<rparr> \<and>
   last (fst (handler silent_world sample_input)) = ConnectionEnd"
  by (simp add: handler_def generateSqlQuery_def connection_options_def silent_world_def
      sample_input_def or_default_def Let_def)

text \<open>
  C9: comment stripping also fires inside a quoted literal. In the statement
  \<open>SELECT 'a--b' AS x\<close>, LF, \<open>FROM t LIMIT 5;\<close> everything from \<open>--\<close> to the end of
  the first line is deleted, and the sanitized statement differs from the input.
\<close>

theorem comment_stripped_inside_literal:
  "strip_comments (js ''SELECT 'a--b' AS x'' @ [0x0A] @ js ''FROM t LIMIT 5;'') =
     js ''SELECT 'a'' @ [0x0A] @ js ''FROM t LIMIT 5;'' \<and>
   sanitizeSqlQuery (js ''SELECT 'a--b' AS x'' @ [0x0A] @ js ''FROM t LIMIT 5;'') =
     js ''SELECT 'a'' @ [0x0A] @ js ''FROM t LIMIT 5;'' \<and>
   sanitizeSqlQuery (js ''SELECT 'a--b' AS x'' @ [0x0A] @ js ''FROM t LIMIT 5;'') \<noteq>
     js ''SELECT 'a--b' AS x'' @ [0x0A] @ js ''FROM t LIMIT 5;''"
  by code_simp

text \<open>
  C10: a schema parameter equal to \<open>[]\<close> is treated as an absent one. Both give the
  same completion request and the same run, and the system message built for them has
  no \<open>[\<close> in it.
\<close>

theorem empty_list_schema_is_no_schema:
  "handler w (inp\<lparr>schema := Some (js ''[]'')\<rparr>) = handler w (inp\<lparr>schema := None\<rparr>) \<and>
   completion_request key (or_default (Some (js ''[]'')) (js ''[]'')) q n =
     completion_request key (or_default None (js ''[]'')) q n \<and>
   0x5B \<notin> set (system_content (or_default (Some (js ''[]'')) (js ''[]'')))"
proof (intro conjI)
  have d: "or_default (Some (js ''[]'')) (js ''[]'') = or_default None (js ''[]'')"
    by (simp add: or_default_def)
  show "handler w (inp\<lparr>schema := Some (js ''[]'')\<rparr>) = handler w (inp\<lparr>schema := None\<rparr>)"
    by (simp add: handler_def connection_options_def d Let_def
        cong: option.case_cong sum.case_cong)
  show "completion_request key (or_default (Some (js ''[]'')) (js ''[]'')) q n =
     completion_request key (or_default None (js ''[]'')) q n"
    by (simp only: d)
  show "0x5B \<notin> set (system_content (or_default (Some (js ''[]'')) (js ''[]'')))"
    by (simp add: or_default_def system_content_def) (simp add: js_def)
qed

theorem empty_list_schema_is_no_schema_witness:
  "handler silent_world (sample_input\<lparr>schema := Some (js ''[]'')\<rparr>) =
     handler silent_world (sample_input\<lparr>schema := None\<rparr>)"
  by (rule empty_list_schema_is_no_schema [THEN conjunct1])

end
